theory Spec2Isabelle
  imports Main "HOL-Library.Sublist"
begin

section \<open>Data model\<close>

text \<open>
  The add-on (\<^verbatim>\<open>collection_gltf_exporter.py\<close>) works on data owned by the host application:
  the collections of \<^verbatim>\<open>bpy.data.collections\<close>, the objects of the current scene, the
  selection and the active object of \<^verbatim>\<open>bpy.context\<close>. Collections and objects are
  referred to by name, as the source does (\<^verbatim>\<open>obj.name in bpy.context.scene.objects\<close>,
  \<^verbatim>\<open>target_collection.name in [child.name for child in ...]\<close>).
  Strings are lists of 8-bit characters, read as the code points below 256.
\<close>

text \<open>A custom property value, with Python's truth value.\<close>

datatype prop_value = PBool bool | PInt int | PStr string

fun truthy :: "prop_value \<Rightarrow> bool" where
  "truthy (PBool b) = b"
| "truthy (PInt i) = (i \<noteq> 0)"
| "truthy (PStr s) = (s \<noteq> [])"

text \<open>
  A collection: its name, the custom property \<^verbatim>\<open>"export_gltf"\<close> (\<open>None\<close> when the key is
  absent), the names of its child collections and the names of its objects.
\<close>

record collection =
  name :: string
  export_gltf :: "prop_value option"
  children :: "string list"
  objects :: "string list"

text \<open>
  What the export reads and never writes: \<^verbatim>\<open>bpy.data.collections\<close> in iteration order,
  \<^verbatim>\<open>bpy.data.filepath\<close>, the names in \<^verbatim>\<open>bpy.context.scene.objects\<close> and the setting
  \<^verbatim>\<open>use_collection_structure\<close>.
\<close>

record blend_data =
  collections :: "collection list"
  filepath :: string
  scene_objects :: "string list"
  use_collection_structure :: bool

text \<open>
  The host operator \<^verbatim>\<open>bpy.ops.export_scene.gltf\<close> either returns (the code ignores
  what it returns) or raises an \<^verbatim>\<open>Exception\<close> with a message.
\<close>

datatype op_result = Returned | Raised string

text \<open>
  The host is a parameter. Its file state has an abstract type \<open>'h\<close>; only two calls
  of the source act on it: the glTF export operator, called with a file path on the current
  selection, and \<^verbatim>\<open>os.makedirs(path, exist_ok=True)\<close>, whose result \<open>False\<close> stands for a raised
  \<^verbatim>\<open>OSError\<close>. \<open>obj_select_set\<close> tells, for an object, whether \<^verbatim>\<open>obj.select_set(True)\<close>
  returns; \<open>False\<close> stands for the \<^verbatim>\<open>RuntimeError\<close> that the host raises for an object
  that is not in the view layer. \<open>op_mode_set\<close> tells whether
  \<^verbatim>\<open>bpy.ops.object.mode_set\<close> succeeds when the original mode is restored, and
  \<open>expanduser\<close> is \<^verbatim>\<open>os.path.expanduser\<close>.
  The other host calls (\<^verbatim>\<open>select_all\<close>, the first \<^verbatim>\<open>mode_set\<close>, assigning the active object)
  stand outside any \<^verbatim>\<open>try\<close> in the source and are taken to return normally.
  The export operator and \<^verbatim>\<open>os.makedirs\<close> are taken to leave the collections, the scene's
  objects, the selection and the active object as they are. A call of \<^verbatim>\<open>select_set\<close> that
  returns is taken to select the object; the host leaves an object that is hidden
  unselected, which matters only for the selection handed to the export operator.
\<close>

record 'h host =
  op_export_gltf :: "string \<Rightarrow> string list \<Rightarrow> 'h \<Rightarrow> op_result \<times> 'h"
  os_makedirs :: "string \<Rightarrow> 'h \<Rightarrow> bool \<times> 'h"
  obj_select_set :: "string \<Rightarrow> bool"
  op_mode_set :: "string \<Rightarrow> bool"
  expanduser :: "string \<Rightarrow> string"

text \<open>One invocation of the export operator, recorded as it happens.\<close>

record call =
  call_collection :: collection
  call_filepath :: string
  call_selection :: "string list"
  call_result :: op_result

text \<open>The lines printed to the console.\<close>

datatype message =
    Switched_mode string
  | Skipping_disabled string
  | Skipping_empty string
  | No_valid_objects string
  | Created_folder string
  | Exported string string
  | Failed string string
  | Restored_mode string
  | Could_not_restore string
  | Export_complete nat string bool

text \<open>
  What a run changes: the selection, the active object and its mode, the host's file
  state, the local counter \<^verbatim>\<open>exported_count\<close>, the console, and the record of the export
  operator's invocations.
\<close>

record 'h runtime =
  selected_objects :: "string list"
  active_object :: "string option"
  mode :: string
  host :: 'h
  exported_count :: nat
  console :: "message list"
  calls :: "call list"

text \<open>
  An exception that leaves \<^verbatim>\<open>export_collections_to_gltf\<close>: \<^verbatim>\<open>os.makedirs\<close> failed on a path,
  the parent walk did not return (Python ends an unbounded recursion with
  \<^verbatim>\<open>RecursionError\<close>), or \<^verbatim>\<open>select_set\<close> failed on an object. A run that raises keeps the
  state it had reached.
\<close>

datatype error = OSError string | RecursionError | RuntimeError string

type_synonym 'h result = "(error \<times> 'h runtime) + 'h runtime"

section \<open>Strings and paths\<close>

text \<open>\<^verbatim>\<open>str.isalnum\<close> and \<^verbatim>\<open>str.isspace\<close> on the code points below 256.\<close>

definition isalnum :: "char \<Rightarrow> bool" where
  "isalnum c =
     (let n = (of_char c :: nat)
      in (48 \<le> n \<and> n \<le> 57) \<or> (65 \<le> n \<and> n \<le> 90) \<or> (97 \<le> n \<and> n \<le> 122)
         \<or> n = 170 \<or> n = 178 \<or> n = 179 \<or> n = 181 \<or> n = 185 \<or> n = 186
         \<or> (188 \<le> n \<and> n \<le> 190) \<or> (192 \<le> n \<and> n \<le> 214)
         \<or> (216 \<le> n \<and> n \<le> 246) \<or> (248 \<le> n \<and> n \<le> 255))"

definition isspace :: "char \<Rightarrow> bool" where
  "isspace c =
     (let n = (of_char c :: nat)
      in (9 \<le> n \<and> n \<le> 13) \<or> (28 \<le> n \<and> n \<le> 32) \<or> n = 133 \<or> n = 160)"

definition rstrip :: "string \<Rightarrow> string" where
  "rstrip s = rev (dropWhile isspace (rev s))"

text \<open>
  \<^verbatim>\<open>"".join(c for c in collection.name if c.isalnum() or c in (' ', '-', '_')).rstrip()\<close>
\<close>

definition safe_collection_name :: "string \<Rightarrow> string" where
  "safe_collection_name n =
     rstrip (filter (\<lambda>c. isalnum c \<or> c \<in> {CHR '' '', CHR ''-'', CHR ''_''}) n)"

text \<open>
  \<^verbatim>\<open>os.path.join(a, *p)\<close> of \<^verbatim>\<open>posixpath\<close>: a component that starts with the separator
  replaces what was joined so far; otherwise it is appended, after a separator unless the
  path is empty or ends with one.
\<close>

definition join_step :: "string \<Rightarrow> string \<Rightarrow> string" where
  "join_step path b =
     (if take 1 b = ''/'' then b
      else if path = [] \<or> last path = CHR ''/'' then path @ b
      else path @ ''/'' @ b)"

definition os_path_join :: "string \<Rightarrow> string list \<Rightarrow> string" where
  "os_path_join a p = foldl join_step a p"

text \<open>
  \<^verbatim>\<open>os.path.dirname\<close> of \<^verbatim>\<open>posixpath\<close>: the part up to the last separator, without its
  trailing separators unless it consists of separators only.
\<close>

definition os_path_dirname :: "string \<Rightarrow> string" where
  "os_path_dirname p =
     (let head = rev (dropWhile (\<lambda>c. c \<noteq> CHR ''/'') (rev p))
      in if head \<noteq> [] \<and> \<not> list_all (\<lambda>c. c = CHR ''/'') head
         then rev (dropWhile (\<lambda>c. c = CHR ''/'') (rev head))
         else head)"

section \<open>Export flags\<close>

text \<open>\<^verbatim>\<open>collection.get("export_gltf", False)\<close>, read as a condition.\<close>

definition export_enabled :: "collection \<Rightarrow> bool" where
  "export_enabled c = (case export_gltf c of None \<Rightarrow> False | Some v \<Rightarrow> truthy v)"

text \<open>
  \<^verbatim>\<open>bpy.data.collections[name]\<close> is the first collection of that name; assigning to one of
  its keys changes it in place.
\<close>

fun update_named :: "string \<Rightarrow> (collection \<Rightarrow> collection) \<Rightarrow> collection list \<Rightarrow> collection list" where
  "update_named n f [] = []"
| "update_named n f (c # cs) = (if name c = n then f c # cs else c # update_named n f cs)"

datatype report = INFO string | ERROR string

text \<open>\<^verbatim>\<open>GLTF_OT_toggle_collection.execute\<close>: the collections afterwards and the report.\<close>

definition toggle_collection_execute :: "string \<Rightarrow> collection list \<Rightarrow> collection list \<times> report" where
  "toggle_collection_execute collection_name cs =
     (case find (\<lambda>c. name c = collection_name) cs of
        Some c \<Rightarrow>
          let current_status = export_enabled c;
              status = (if \<not> current_status then ''enabled'' else ''disabled'')
          in (update_named collection_name
                (\<lambda>c. c\<lparr>export_gltf := Some (PBool (\<not> current_status))\<rparr>) cs,
              INFO (''Collection '' @ [CHR 39] @ collection_name @ [CHR 39] @ '' export '' @ status))
      | None \<Rightarrow>
          (cs, ERROR (''Collection '' @ [CHR 39] @ collection_name @ [CHR 39] @ '' not found'')))"

text \<open>\<^verbatim>\<open>toggle_collection_export\<close>, \<^verbatim>\<open>enable_all_collections_for_export\<close> and
  \<^verbatim>\<open>disable_all_collections_for_export\<close>.\<close>

definition toggle_collection_export :: "string \<Rightarrow> bool \<Rightarrow> collection list \<Rightarrow> collection list" where
  "toggle_collection_export collection_name enabled cs =
     (if collection_name \<in> set (map name cs)
      then update_named collection_name (\<lambda>c. c\<lparr>export_gltf := Some (PBool enabled)\<rparr>) cs
      else cs)"

definition enable_all_collections_for_export :: "collection list \<Rightarrow> collection list" where
  "enable_all_collections_for_export cs = map (\<lambda>c. c\<lparr>export_gltf := Some (PBool True)\<rparr>) cs"

definition disable_all_collections_for_export :: "collection list \<Rightarrow> collection list" where
  "disable_all_collections_for_export cs = map (\<lambda>c. c\<lparr>export_gltf := Some (PBool False)\<rparr>) cs"

section \<open>The parent walk\<close>

text \<open>
  \<^verbatim>\<open>find_parents\<close>: the first collection, in iteration order, that lists the target among
  its children is the parent; its name is appended to the path; the walk goes on from the
  parent when some collection lists the parent as a child and stops otherwise. The value
  \<open>None\<close> is a walk that does not return. (Python also ends a walk deeper than its
  recursion limit; the model has no such limit.)
\<close>

partial_function (option) find_parents ::
  "collection list \<Rightarrow> collection \<Rightarrow> string list \<Rightarrow> string list option" where
  "find_parents cs target_collection current_path =
     (case find (\<lambda>parent_collection. name target_collection \<in> set (children parent_collection)) cs of
        None \<Rightarrow> Some current_path
      | Some parent_collection \<Rightarrow>
          let new_path = current_path @ [name parent_collection];
              parent_found = list_ex (\<lambda>grandparent. name parent_collection \<in> set (children grandparent)) cs
          in if parent_found then find_parents cs parent_collection new_path
             else Some new_path)"

definition get_collection_hierarchy_path :: "collection list \<Rightarrow> collection \<Rightarrow> string list option" where
  "get_collection_hierarchy_path cs c = find_parents cs c []"

section \<open>The batch export\<close>

text \<open>\<^verbatim>\<open>obj.select_set(True)\<close>: the object joins the selection.\<close>

definition select_set :: "string \<Rightarrow> string list \<Rightarrow> string list" where
  "select_set obj sel = (if obj \<in> set sel then sel else sel @ [obj])"

text \<open>
  Lines 302 to 306 and 354 to 356: each object of the list that is in the current scene
  is selected; a call of \<^verbatim>\<open>select_set\<close> that raises ends the run.
\<close>

fun select_objects ::
  "'h host \<Rightarrow> blend_data \<Rightarrow> string list \<Rightarrow> 'h runtime \<Rightarrow> (error \<times> 'h runtime) + 'h runtime" where
  "select_objects H B [] st = Inr st"
| "select_objects H B (obj # objs) st =
     (if obj \<in> set (scene_objects B) then
        (if obj_select_set H obj
         then select_objects H B objs (st\<lparr>selected_objects := select_set obj (selected_objects st)\<rparr>)
         else Inl (RuntimeError obj, st))
      else select_objects H B objs st)"

text \<open>
  Lines 316 to 331: the directory the file goes to. With \<^verbatim>\<open>use_collection_structure\<close> and a
  non-empty hierarchy, the hierarchy is reversed and joined, joined to the export path,
  and the directory is created.
\<close>

definition final_export_dir ::
  "'h host \<Rightarrow> blend_data \<Rightarrow> string \<Rightarrow> collection \<Rightarrow> 'h runtime \<Rightarrow> (error \<times> 'h runtime) + (string \<times> 'h runtime)" where
  "final_export_dir H B export_path c st =
     (if use_collection_structure B then
        (case get_collection_hierarchy_path (collections B) c of
           None \<Rightarrow> Inl (RecursionError, st)
         | Some hierarchy \<Rightarrow>
             (case rev hierarchy of
                [] \<Rightarrow> Inr (export_path, st)
              | r # rs \<Rightarrow>
                  let subfolder_path = os_path_join r rs;
                      final_export_path = os_path_join export_path [subfolder_path]
                  in (case os_makedirs H final_export_path (host st) of
                        (False, h) \<Rightarrow> Inl (OSError final_export_path, st\<lparr>host := h\<rparr>)
                      | (True, h) \<Rightarrow>
                          Inr (final_export_path,
                               st\<lparr>host := h, console := console st @ [Created_folder subfolder_path]\<rparr>))))
      else Inr (export_path, st))"

text \<open>
  Lines 339 to 350: the export operator is called on the current selection; when it
  returns the counter goes up, when it raises the exception is caught and printed.
\<close>

definition export_selected :: "'h host \<Rightarrow> collection \<Rightarrow> string \<Rightarrow> 'h runtime \<Rightarrow> 'h runtime" where
  "export_selected H c path st =
     (case op_export_gltf H path (selected_objects st) (host st) of
        (Returned, h) \<Rightarrow>
          st\<lparr>host := h,
             exported_count := exported_count st + 1,
             console := console st @ [Exported (name c) path],
             calls := calls st @
               [\<lparr>call_collection = c, call_filepath = path,
                 call_selection = selected_objects st, call_result = Returned\<rparr>]\<rparr>
      | (Raised e, h) \<Rightarrow>
          st\<lparr>host := h,
             console := console st @ [Failed (name c) e],
             calls := calls st @
               [\<lparr>call_collection = c, call_filepath = path,
                 call_selection = selected_objects st, call_result = Raised e\<rparr>]\<rparr>)"

text \<open>Lines 285 to 350: the body of the loop, for one collection.\<close>

definition export_collection ::
  "'h host \<Rightarrow> blend_data \<Rightarrow> string \<Rightarrow> collection \<Rightarrow> 'h runtime \<Rightarrow> 'h result" where
  "export_collection H B export_path c st =
     (if \<not> export_enabled c then
        Inr (st\<lparr>console := console st @ [Skipping_disabled (name c)]\<rparr>)
      else if objects c = [] then
        Inr (st\<lparr>console := console st @ [Skipping_empty (name c)]\<rparr>)
      else
        (case select_objects H B (objects c) (st\<lparr>selected_objects := []\<rparr>) of
           Inl err \<Rightarrow> Inl err
         | Inr st1 \<Rightarrow>
             let objects_in_collection = filter (\<lambda>obj. obj \<in> set (scene_objects B)) (objects c)
             in (case objects_in_collection of
                   [] \<Rightarrow> Inr (st1\<lparr>console := console st1 @ [No_valid_objects (name c)]\<rparr>)
                 | first # _ \<Rightarrow>
                     (case final_export_dir H B export_path c (st1\<lparr>active_object := Some first\<rparr>) of
                        Inl err \<Rightarrow> Inl err
                      | Inr (final_export_path, st2) \<Rightarrow>
                          let filename = safe_collection_name (name c) @ ''.gltf'';
                              filepath = os_path_join final_export_path [filename]
                          in Inr (export_selected H c filepath st2)))))"

text \<open>Line 284: the loop over \<^verbatim>\<open>bpy.data.collections\<close>; an exception ends it.\<close>

fun export_loop ::
  "'h host \<Rightarrow> blend_data \<Rightarrow> string \<Rightarrow> collection list \<Rightarrow> 'h runtime \<Rightarrow> 'h result" where
  "export_loop H B export_path [] st = Inr st"
| "export_loop H B export_path (c # cs) st =
     (case export_collection H B export_path c st of
        Inl err \<Rightarrow> Inl err
      | Inr st' \<Rightarrow> export_loop H B export_path cs st')"

text \<open>Lines 261 to 266: the export path, when none is given.\<close>

definition default_export_path :: "'h host \<Rightarrow> blend_data \<Rightarrow> string option \<Rightarrow> string" where
  "default_export_path H B export_path =
     (case export_path of
        Some p \<Rightarrow> p
      | None \<Rightarrow> if filepath B \<noteq> [] then os_path_dirname (filepath B)
                else expanduser H ''~/Desktop'')"

text \<open>
  Lines 352 to 368: the selection, the active object and the mode are put back, and the
  count is printed.
\<close>

definition restore_and_report ::
  "'h host \<Rightarrow> blend_data \<Rightarrow> string \<Rightarrow> string list \<Rightarrow> string option \<Rightarrow> string \<Rightarrow> 'h runtime \<Rightarrow> 'h result" where
  "restore_and_report H B export_path original_selection original_active original_mode st =
     (case select_objects H B original_selection (st\<lparr>selected_objects := []\<rparr>) of
        Inl err \<Rightarrow> Inl err
      | Inr st0 \<Rightarrow>
          let st1 = st0\<lparr>active_object := original_active\<rparr>;
              st2 = (if original_active \<noteq> None \<and> original_mode \<noteq> ''OBJECT'' then
                       (if op_mode_set H original_mode
                        then st1\<lparr>mode := original_mode, console := console st1 @ [Restored_mode original_mode]\<rparr>
                        else st1\<lparr>console := console st1 @ [Could_not_restore original_mode]\<rparr>)
                     else st1)
          in Inr (st2\<lparr>console := console st2 @
                    [Export_complete (exported_count st2) export_path (use_collection_structure B)]\<rparr>))"

text \<open>
  \<^verbatim>\<open>export_collections_to_gltf(export_path)\<close>, started in a context with the given selection,
  active object and mode, on the host state \<open>h\<close>.
\<close>

definition export_collections_to_gltf ::
  "'h host \<Rightarrow> blend_data \<Rightarrow> string option \<Rightarrow> string list \<Rightarrow> string option \<Rightarrow> string \<Rightarrow> 'h \<Rightarrow> 'h result" where
  "export_collections_to_gltf H B export_path selection active current_mode h =
     (let path = default_export_path H B export_path;
          original_selection = selection;
          original_active = active;
          original_mode = (if active \<noteq> None then current_mode else ''OBJECT'');
          switch = (active \<noteq> None \<and> current_mode \<noteq> ''OBJECT'');
          st0 = \<lparr>selected_objects = [],
                 active_object = active,
                 mode = (if switch then ''OBJECT'' else current_mode),
                 host = h,
                 exported_count = 0,
                 console = (if switch then [Switched_mode original_mode] else []),
                 calls = []\<rparr>
      in (case export_loop H B path (collections B) st0 of
            Inl err \<Rightarrow> Inl err
          | Inr st \<Rightarrow>
              restore_and_report H B path original_selection original_active original_mode st))"

text \<open>The state a run ends in, and whether it returned.\<close>

fun final_state :: "'h result \<Rightarrow> 'h runtime" where
  "final_state (Inl (err, st)) = st"
| "final_state (Inr st) = st"

fun completed :: "'h result \<Rightarrow> bool" where
  "completed (Inl err) = False"
| "completed (Inr st) = True"

text \<open>The exception a run ended with, if any.\<close>

fun raised :: "'h result \<Rightarrow> error option" where
  "raised (Inl (err, st)) = Some err"
| "raised (Inr st) = None"

text \<open>\<^verbatim>\<open>GLTF_OT_export_collections.execute\<close>: an export path of white space only counts as none.
  \<^verbatim>\<open>str.strip\<close> removes white space at both ends.\<close>

definition strip :: "string \<Rightarrow> string" where
  "strip s = rstrip (dropWhile isspace s)"

definition export_collections_execute ::
  "'h host \<Rightarrow> blend_data \<Rightarrow> string \<Rightarrow> string list \<Rightarrow> string option \<Rightarrow> string \<Rightarrow> 'h \<Rightarrow> 'h result" where
  "export_collections_execute H B export_path_prop selection active current_mode h =
     (let custom_path = (if export_path_prop \<noteq> [] then Some (strip export_path_prop) else None);
          export_path = (case custom_path of
                           Some p \<Rightarrow> if p \<noteq> [] then Some p else None
                         | None \<Rightarrow> None)
      in export_collections_to_gltf H B export_path selection active current_mode h)"

section \<open>Notions the properties are stated with\<close>

text \<open>
  A collection takes part in an export when its flag holds and at least one of its objects
  is in the current scene.
\<close>

definition exportable :: "blend_data \<Rightarrow> collection \<Rightarrow> bool" where
  "exportable B c =
     (export_enabled c \<and> list_ex (\<lambda>obj. obj \<in> set (scene_objects B)) (objects c))"

text \<open>The file name of a collection: its name, filtered, with the extension.\<close>

definition gltf_filename :: "collection \<Rightarrow> string" where
  "gltf_filename c = safe_collection_name (name c) @ ''.gltf''"

text \<open>\<open>is_child_of cs p n\<close>: a collection named \<open>p\<close> lists \<open>n\<close> among its children.\<close>

definition is_child_of :: "collection list \<Rightarrow> string \<Rightarrow> string \<Rightarrow> bool" where
  "is_child_of cs p n = list_ex (\<lambda>c. name c = p \<and> n \<in> set (children c)) cs"

definition has_parent :: "collection list \<Rightarrow> string \<Rightarrow> bool" where
  "has_parent cs n = list_ex (\<lambda>c. n \<in> set (children c)) cs"

text \<open>The hierarchy as a relation from parent name to child name.\<close>

definition child_rel :: "collection list \<Rightarrow> (string \<times> string) set" where
  "child_rel cs = {(p, n). is_child_of cs p n}"

text \<open>
  \<open>ancestor_path cs n ps\<close>: \<open>ps\<close> lists ancestors of \<open>n\<close> from a root down to an
  immediate parent of \<open>n\<close>: its first element has no parent, each element is a parent of
  the next, and the last one is a parent of \<open>n\<close>. It is empty when \<open>n\<close> has no parent.
\<close>

inductive ancestor_path :: "collection list \<Rightarrow> string \<Rightarrow> string list \<Rightarrow> bool" for cs where
  root: "\<not> has_parent cs n \<Longrightarrow> ancestor_path cs n []"
| step: "is_child_of cs p n \<Longrightarrow> ancestor_path cs p ps \<Longrightarrow> ancestor_path cs n (ps @ [p])"

text \<open>The invocations of the export operator that returned.\<close>

definition returned_calls :: "call list \<Rightarrow> call list" where
  "returned_calls ks = filter (\<lambda>k. call_result k = Returned) ks"

text \<open>
  \<open>mirrors_nesting cs export_path c path\<close>: the file path is the export path joined with
  the names of ancestors of the collection, from a root down to an immediate parent, and
  with the file name.
\<close>

definition mirrors_nesting :: "collection list \<Rightarrow> string \<Rightarrow> collection \<Rightarrow> string \<Rightarrow> bool" where
  "mirrors_nesting cs export_path c path =
     (\<exists>ps. ancestor_path cs (name c) ps \<and> path = os_path_join export_path (ps @ [gltf_filename c]))"

text \<open>
  \<open>file_effects H h h'\<close>: the file state \<open>h'\<close> comes from \<open>h\<close> by calls of
  \<^verbatim>\<open>os.makedirs\<close> and of the export operator, and by nothing else.
\<close>

inductive file_effects :: "'h host \<Rightarrow> 'h \<Rightarrow> 'h \<Rightarrow> bool" for H where
  none: "file_effects H h h"
| makedirs: "file_effects H h h1 \<Longrightarrow> file_effects H h (snd (os_makedirs H path h1))"
| export: "file_effects H h h1 \<Longrightarrow> file_effects H h (snd (op_export_gltf H path sel h1))"

text \<open>
  \<open>dir_spec B p c d\<close>: \<open>d\<close> is the directory for the collection: the export path
  itself, or, with \<^verbatim>\<open>use_collection_structure\<close>, the export path joined with the reversed
  result of the parent walk.
\<close>

definition dir_spec :: "blend_data \<Rightarrow> string \<Rightarrow> collection \<Rightarrow> string \<Rightarrow> bool" where
  "dir_spec B p c d =
     (if use_collection_structure B
      then \<exists>hierarchy. get_collection_hierarchy_path (collections B) c = Some hierarchy
             \<and> d = os_path_join p (rev hierarchy)
      else d = p)"

text \<open>
  \<open>call_ok B p k\<close>: the invocation \<open>k\<close> is for an exportable collection, its file path
  ends with the collection's file name, and it lies where the setting says.
\<close>

definition call_ok :: "blend_data \<Rightarrow> string \<Rightarrow> call \<Rightarrow> bool" where
  "call_ok B p k =
     (exportable B (call_collection k)
      \<and> (\<exists>d. call_filepath k = os_path_join d [gltf_filename (call_collection k)])
      \<and> (if use_collection_structure B
          then mirrors_nesting (collections B) p (call_collection k) (call_filepath k)
          else call_filepath k = os_path_join p [gltf_filename (call_collection k)]))"

section \<open>Example scenes\<close>

text \<open>
  A host that keeps a log of what is done to the file system; its export operator raises
  on one path.
\<close>

definition log_host :: "string list host" where
  "log_host =
     \<lparr>op_export_gltf = (\<lambda>path sel h.
          (if path = ''/out/Level/Props.gltf'' then Raised ''disk full'' else Returned,
           h @ [''gltf '' @ path])),
      os_makedirs = (\<lambda>path h. (True, h @ [''mkdir '' @ path])),
      obj_select_set = (\<lambda>obj. True),
      op_mode_set = (\<lambda>m. True),
      expanduser = (\<lambda>p. ''/home/user'' @ drop 1 p)\<rparr>"

text \<open>
  A host whose export operator raises on the first collection's file and on which no
  directory can be created.
\<close>

definition readonly_host :: "string list host" where
  "readonly_host =
     \<lparr>op_export_gltf = (\<lambda>path sel h.
          (if path = ''/out/Level.gltf'' then Raised ''disk full'' else Returned,
           h @ [''gltf '' @ path])),
      os_makedirs = (\<lambda>path h. (False, h)),
      obj_select_set = (\<lambda>obj. True),
      op_mode_set = (\<lambda>m. True),
      expanduser = (\<lambda>p. ''/home/user'' @ drop 1 p)\<rparr>"

definition level :: collection where
  "level = \<lparr>name = ''Level'', export_gltf = Some (PBool True), children = [''Props''],
             objects = [''Floor'']\<rparr>"

definition props :: collection where
  "props = \<lparr>name = ''Props'', export_gltf = Some (PBool True), children = [''Crates''],
             objects = [''Lamp'', ''Ghost'']\<rparr>"

definition crates :: collection where
  "crates = \<lparr>name = ''Crates'', export_gltf = Some (PBool True), children = [],
              objects = [''Crate'']\<rparr>"

definition drafts :: collection where
  "drafts = \<lparr>name = ''Drafts'', export_gltf = None, children = [], objects = [''Crate'']\<rparr>"

text \<open>Three nested collections and an unflagged one; \<^verbatim>\<open>Ghost\<close> is not in the scene.\<close>

definition nested_scene :: blend_data where
  "nested_scene =
     \<lparr>collections = [level, props, crates, drafts], filepath = ''/work/level.blend'',
      scene_objects = [''Floor'', ''Lamp'', ''Crate''], use_collection_structure = True\<rparr>"

text \<open>A flagged collection whose only object belongs to another scene.\<close>

definition backdrop :: collection where
  "backdrop = \<lparr>name = ''Backdrop'', export_gltf = Some (PBool True), children = [],
                objects = [''Wall'']\<rparr>"

definition other_scene :: blend_data where
  "other_scene =
     \<lparr>collections = [backdrop], filepath = ''/work/level.blend'',
      scene_objects = [''Floor''], use_collection_structure = False\<rparr>"

text \<open>Two collections whose names differ in a character that the file name drops.\<close>

definition props_dot :: collection where
  "props_dot = \<lparr>name = ''Props.001'', export_gltf = Some (PBool True), children = [],
                 objects = [''Lamp'']\<rparr>"

definition props_plain :: collection where
  "props_plain = \<lparr>name = ''Props001'', export_gltf = Some (PBool True), children = [],
                   objects = [''Crate'']\<rparr>"

definition twin_scene :: blend_data where
  "twin_scene =
     \<lparr>collections = [props_dot, props_plain], filepath = ''/work/level.blend'',
      scene_objects = [''Lamp'', ''Crate''], use_collection_structure = False\<rparr>"

declare find_parents.simps [code]

section \<open>Paths\<close>

lemma join_step_assoc: "join_step a (join_step b c) = join_step (join_step a b) c"
proof (cases "take 1 c = ''/''")
  case True
  then show ?thesis by (simp add: join_step_def)
next
  case c: False
  show ?thesis
  proof (cases "take 1 b = ''/''")
    case True
    then have "b \<noteq> []" by auto
    with True c show ?thesis
      by (cases b) (auto simp: join_step_def)
  next
    case b: False
    show ?thesis
    proof (cases "b = []")
      case True
      with c show ?thesis by (auto simp: join_step_def)
    next
      case False
      with b c show ?thesis
        by (cases b) (auto simp: join_step_def)
    qed
  qed
qed

lemma os_path_join_nested: "os_path_join a [os_path_join r rs] = os_path_join a (r # rs)"
proof (induction rs rule: rev_induct)
  case Nil
  then show ?case by (simp add: os_path_join_def)
next
  case (snoc x xs)
  then show ?case by (simp add: os_path_join_def join_step_assoc)
qed

lemma os_path_join_append: "os_path_join (os_path_join a ps) qs = os_path_join a (ps @ qs)"
  by (simp add: os_path_join_def)

section \<open>Properties of the parent walk\<close>


lemma find_parent_None:
  "find (\<lambda>q. n \<in> set (children q)) cs = None \<longleftrightarrow> \<not> has_parent cs n"
  by (auto simp: find_None_iff has_parent_def list_ex_iff)

lemma find_parent_Some:
  "find (\<lambda>q. n \<in> set (children q)) cs = Some q \<Longrightarrow> is_child_of cs (name q) n"
  by (auto simp: find_Some_iff is_child_of_def list_ex_iff intro!: bexI [where x = q])

lemma find_parents_path:
  assumes "find_parents cs t acc = Some r"
  shows "\<exists>path. r = acc @ path \<and> ancestor_path cs (name t) (rev path)"
proof (rule find_parents.raw_induct
    [where P = "\<lambda>cs t acc r. \<exists>path. r = acc @ path \<and> ancestor_path cs (name t) (rev path)", OF _ assms])
  fix f :: "collection list \<Rightarrow> collection \<Rightarrow> string list \<Rightarrow> string list option"
    and cs :: "collection list" and t :: collection and acc r :: "string list"
  assume IH: "\<And>cs t acc r. f cs t acc = Some r \<Longrightarrow>
      \<exists>path. r = acc @ path \<and> ancestor_path cs (name t) (rev path)"
  assume body: "(case find (\<lambda>q. name t \<in> set (children q)) cs of
        None \<Rightarrow> Some acc
      | Some q \<Rightarrow>
          let new_path = acc @ [name q];
              parent_found = list_ex (\<lambda>g. name q \<in> set (children g)) cs
          in if parent_found then f cs q new_path else Some new_path) = Some r"
  show "\<exists>path. r = acc @ path \<and> ancestor_path cs (name t) (rev path)"
  proof (cases "find (\<lambda>q. name t \<in> set (children q)) cs")
    case None
    with body have "r = acc" by simp
    moreover from None have "ancestor_path cs (name t) []"
      by (simp add: find_parent_None ancestor_path.root)
    ultimately show ?thesis by simp
  next
    case (Some q)
    then have child: "is_child_of cs (name q) (name t)" by (rule find_parent_Some)
    show ?thesis
    proof (cases "list_ex (\<lambda>g. name q \<in> set (children g)) cs")
      case True
      with Some body have "f cs q (acc @ [name q]) = Some r" by (simp add: Let_def)
      from IH [OF this] obtain path where path: "r = (acc @ [name q]) @ path"
        "ancestor_path cs (name q) (rev path)" by blast
      from child path(2) have "ancestor_path cs (name t) (rev path @ [name q])"
        by (rule ancestor_path.step)
      with path(1) have "r = acc @ (name q # path) \<and> ancestor_path cs (name t) (rev (name q # path))"
        by simp
      then show ?thesis by blast
    next
      case False
      with Some body have r: "r = acc @ [name q]" by (simp add: Let_def)
      from False have "ancestor_path cs (name q) []"
        by (simp add: has_parent_def ancestor_path.root)
      with child have "ancestor_path cs (name t) ([] @ [name q])"
        by (rule ancestor_path.step)
      with r have "r = acc @ [name q] \<and> ancestor_path cs (name t) (rev [name q])" by simp
      then show ?thesis by blast
    qed
  qed
qed

lemma finite_child_rel: "finite (child_rel cs)"
proof -
  have "child_rel cs \<subseteq> (\<Union>c\<in>set cs. {name c} \<times> set (children c))"
    by (auto simp: child_rel_def is_child_of_def list_ex_iff)
  moreover have "finite (\<Union>c\<in>set cs. {name c} \<times> set (children c))" by simp
  ultimately show ?thesis by (rule finite_subset)
qed

lemma find_parents_returns:
  assumes "acyclic (child_rel cs)"
  shows "\<exists>r. find_parents cs t acc = Some r"
proof -
  have wf: "wf (child_rel cs)"
    using finite_child_rel assms by (rule finite_acyclic_wf)
  have "\<forall>t acc. name t = n \<longrightarrow> (\<exists>r. find_parents cs t acc = Some r)" for n
  using wf proof (induction n rule: wf_induct_rule)
    case (less n)
    show ?case
    proof (intro allI impI)
      fix t :: collection and acc :: "string list"
      assume n: "name t = n"
      show "\<exists>r. find_parents cs t acc = Some r"
      proof (cases "find (\<lambda>q. name t \<in> set (children q)) cs")
        case None
        then show ?thesis by (subst find_parents.simps) simp
      next
        case (Some q)
        then have "is_child_of cs (name q) (name t)" by (rule find_parent_Some)
        with n have "(name q, n) \<in> child_rel cs" by (simp add: child_rel_def)
        from less [OF this] obtain r where "find_parents cs q (acc @ [name q]) = Some r"
          by blast
        with Some show ?thesis
          by (subst find_parents.simps) (simp add: Let_def)
      qed
    qed
  qed
  then show ?thesis by blast
qed


section \<open>Properties of the loop body\<close>

lemma exportable_iff:
  "exportable B c \<longleftrightarrow> export_enabled c \<and> objects c \<noteq> [] \<and> filter (\<lambda>obj. obj \<in> set (scene_objects B)) (objects c) \<noteq> []"
  by (auto simp: exportable_def list_ex_iff filter_empty_conv)

lemma final_export_dir_Inr:
  assumes "final_export_dir H B p c st = Inr (d, st')"
  shows "calls st' = calls st \<and> exported_count st' = exported_count st
     \<and> selected_objects st' = selected_objects st \<and> active_object st' = active_object st \<and> mode st' = mode st"
  using assms
  by (auto simp: final_export_dir_def Let_def split: option.splits list.splits prod.splits bool.splits if_splits)

lemma final_export_dir_Inl:
  assumes "final_export_dir H B p c st = Inl (e, st')"
  shows "calls st' = calls st \<and> exported_count st' = exported_count st
     \<and> selected_objects st' = selected_objects st \<and> active_object st' = active_object st \<and> mode st' = mode st"
  using assms
  by (auto simp: final_export_dir_def Let_def split: option.splits list.splits prod.splits bool.splits if_splits)

lemma final_export_dir_flat:
  assumes "final_export_dir H B p c st = Inr (d, st')" and "\<not> use_collection_structure B"
  shows "d = p"
  using assms by (simp add: final_export_dir_def)

lemma final_export_dir_structure:
  assumes "final_export_dir H B p c st = Inr (d, st')" and "use_collection_structure B"
  shows "\<exists>hierarchy. get_collection_hierarchy_path (collections B) c = Some hierarchy
           \<and> d = os_path_join p (rev hierarchy)"
proof (cases "get_collection_hierarchy_path (collections B) c")
  case None
  with assms show ?thesis by (simp add: final_export_dir_def)
next
  case (Some hierarchy)
  show ?thesis
  proof (cases "rev hierarchy")
    case Nil
    with Some assms have "d = p" by (simp add: final_export_dir_def)
    with Nil Some show ?thesis by (simp add: os_path_join_def)
  next
    case (Cons r rs)
    with Some assms have "d = os_path_join p [os_path_join r rs]"
      by (auto simp: final_export_dir_def Let_def split: prod.splits bool.splits)
    with Cons Some show ?thesis by (simp add: os_path_join_nested)
  qed
qed

lemma final_export_dir_total:
  assumes "\<And>path h. fst (os_makedirs H path h)"
    and "use_collection_structure B \<Longrightarrow> \<exists>r. get_collection_hierarchy_path (collections B) c = Some r"
  shows "\<exists>d st'. final_export_dir H B p c st = Inr (d, st')"
proof (cases "use_collection_structure B")
  case False
  then show ?thesis by (simp add: final_export_dir_def)
next
  case True
  with assms(2) obtain r where r: "get_collection_hierarchy_path (collections B) c = Some r" by blast
  show ?thesis
  proof (cases "rev r")
    case Nil
    with True r show ?thesis by (simp add: final_export_dir_def)
  next
    case (Cons x xs)
    obtain ok h where mk: "os_makedirs H (os_path_join p [os_path_join x xs]) (host st) = (ok, h)"
      by (cases "os_makedirs H (os_path_join p [os_path_join x xs]) (host st)")
    with assms(1) [of "os_path_join p [os_path_join x xs]" "host st"] have "ok" by simp
    with True r Cons mk show ?thesis by (simp add: final_export_dir_def Let_def)
  qed
qed

lemma export_selected_calls:
  "calls (export_selected H c path st) = calls st @
     [\<lparr>call_collection = c, call_filepath = path, call_selection = selected_objects st,
       call_result = fst (op_export_gltf H path (selected_objects st) (host st))\<rparr>]"
  by (simp add: export_selected_def split: prod.splits op_result.splits)

lemma export_selected_count:
  "exported_count (export_selected H c path st) =
     exported_count st + (if fst (op_export_gltf H path (selected_objects st) (host st)) = Returned then 1 else 0)"
  by (simp add: export_selected_def split: prod.splits op_result.splits)

lemma select_objects_frame:
  "calls (final_state (select_objects H B objs st)) = calls st
   \<and> exported_count (final_state (select_objects H B objs st)) = exported_count st
   \<and> host (final_state (select_objects H B objs st)) = host st"
  by (induction objs arbitrary: st) auto

lemma select_objects_Inr:
  "select_objects H B objs st = Inr st' \<Longrightarrow>
   st' = st\<lparr>selected_objects := foldl (\<lambda>sel obj. select_set obj sel) (selected_objects st)
                 (filter (\<lambda>obj. obj \<in> set (scene_objects B)) objs)\<rparr>"
proof (induction objs arbitrary: st)
  case Nil
  then show ?case by simp
next
  case (Cons obj objs)
  show ?case
  proof (cases "obj \<in> set (scene_objects B)")
    case False
    with Cons.prems have "select_objects H B objs st = Inr st'" by simp
    from Cons.IH [OF this] False show ?thesis by simp
  next
    case True
    with Cons.prems have ok: "obj_select_set H obj"
      and rest: "select_objects H B objs (st\<lparr>selected_objects := select_set obj (selected_objects st)\<rparr>) = Inr st'"
      by (auto split: if_splits)
    from Cons.IH [OF rest] True show ?thesis by simp
  qed
qed

lemma select_objects_none:
  "filter (\<lambda>obj. obj \<in> set (scene_objects B)) objs = [] \<Longrightarrow> select_objects H B objs st = Inr st"
  by (induction objs arbitrary: st) (auto split: if_splits)

lemma select_objects_total:
  assumes "\<And>obj. obj_select_set H obj"
  shows "completed (select_objects H B objs st)"
  using assms by (induction objs arbitrary: st) auto

lemma export_collection_skip:
  assumes "\<not> exportable B c"
  shows "\<exists>st'. export_collection H B p c st = Inr st' \<and> calls st' = calls st
      \<and> exported_count st' = exported_count st \<and> host st' = host st"
proof (cases "export_enabled c \<and> objects c \<noteq> []")
  case False
  then show ?thesis by (auto simp: export_collection_def)
next
  case True
  with assms have none: "filter (\<lambda>obj. obj \<in> set (scene_objects B)) (objects c) = []"
    by (simp add: exportable_iff)
  from select_objects_none [OF this]
  have "select_objects H B (objects c) (st\<lparr>selected_objects := []\<rparr>) = Inr (st\<lparr>selected_objects := []\<rparr>)" .
  with True none show ?thesis by (simp add: export_collection_def)
qed

lemma export_collection_select_Inl:
  assumes "exportable B c"
    and "select_objects H B (objects c) (st\<lparr>selected_objects := []\<rparr>) = Inl (e, st')"
  shows "export_collection H B p c st = Inl (e, st') \<and> calls st' = calls st
      \<and> exported_count st' = exported_count st \<and> host st' = host st"
proof -
  from assms(1) have "export_enabled c" "objects c \<noteq> []" by (simp_all add: exportable_iff)
  with assms(2) have "export_collection H B p c st = Inl (e, st')"
    by (simp add: export_collection_def)
  moreover from select_objects_frame [of H B "objects c" "st\<lparr>selected_objects := []\<rparr>"] assms(2)
  have "calls st' = calls st \<and> exported_count st' = exported_count st \<and> host st' = host st"
    by simp
  ultimately show ?thesis by simp
qed

lemma export_collection_select_Inr:
  assumes "exportable B c"
    and "select_objects H B (objects c) (st\<lparr>selected_objects := []\<rparr>) = Inr s1"
  shows "\<exists>st1. calls st1 = calls st \<and> exported_count st1 = exported_count st \<and> host st1 = host st \<and>
     export_collection H B p c st =
       (case final_export_dir H B p c st1 of
          Inl err \<Rightarrow> Inl err
        | Inr (d, st2) \<Rightarrow> Inr (export_selected H c (os_path_join d [gltf_filename c]) st2))"
proof -
  from assms(1) obtain x xs where "filter (\<lambda>obj. obj \<in> set (scene_objects B)) (objects c) = x # xs"
    by (auto simp: exportable_iff neq_Nil_conv)
  moreover from assms(1) have "export_enabled c" "objects c \<noteq> []" by (simp_all add: exportable_iff)
  moreover from select_objects_frame [of H B "objects c" "st\<lparr>selected_objects := []\<rparr>"] assms(2)
  have "calls s1 = calls st \<and> exported_count s1 = exported_count st \<and> host s1 = host st"
    by simp
  ultimately show ?thesis using assms(2)
    by (intro exI [where x = "s1\<lparr>active_object := Some x\<rparr>"])
       (simp add: export_collection_def Let_def gltf_filename_def split: sum.splits prod.splits)
qed

lemma export_collection_Inl:
  assumes "export_collection H B p c st = Inl (e, st')"
  shows "calls st' = calls st \<and> exported_count st' = exported_count st \<and> exportable B c"
proof (cases "exportable B c")
  case False
  from export_collection_skip [OF this, of H p st] assms show ?thesis by auto
next
  case True
  show ?thesis
  proof (cases "select_objects H B (objects c) (st\<lparr>selected_objects := []\<rparr>)")
    case (Inl a)
    obtain e1 s1 where a: "a = (e1, s1)" by (cases a)
    from export_collection_select_Inl [OF True, of H st e1 s1 p] Inl a assms True
    show ?thesis by simp
  next
    case (Inr s1)
    from export_collection_select_Inr [OF True Inr, of p] obtain st1 where
      st1: "calls st1 = calls st" "exported_count st1 = exported_count st" and
      eq: "export_collection H B p c st =
         (case final_export_dir H B p c st1 of
            Inl err \<Rightarrow> Inl err
          | Inr (d, st2) \<Rightarrow> Inr (export_selected H c (os_path_join d [gltf_filename c]) st2))" by blast
    from eq assms have "final_export_dir H B p c st1 = Inl (e, st')"
      by (auto split: sum.splits prod.splits)
    from final_export_dir_Inl [OF this] st1 True show ?thesis by simp
  qed
qed

lemma export_collection_Inr:
  assumes "export_collection H B p c st = Inr st'" and "exportable B c"
  shows "\<exists>k d. calls st' = calls st @ [k] \<and> call_collection k = c
           \<and> call_filepath k = os_path_join d [gltf_filename c] \<and> dir_spec B p c d
           \<and> exported_count st' = exported_count st + (if call_result k = Returned then 1 else 0)"
proof -
  obtain s1 where s1: "select_objects H B (objects c) (st\<lparr>selected_objects := []\<rparr>) = Inr s1"
  proof (cases "select_objects H B (objects c) (st\<lparr>selected_objects := []\<rparr>)")
    case (Inl a)
    obtain e1 s0 where "a = (e1, s0)" by (cases a)
    with export_collection_select_Inl [OF assms(2), of H st e1 s0 p] Inl assms(1)
    show ?thesis by simp
  next
    case (Inr s1)
    then show ?thesis by (rule that)
  qed
  from export_collection_select_Inr [OF assms(2) s1, of p] obtain st1 where
    st1: "calls st1 = calls st" "exported_count st1 = exported_count st" and
    eq: "export_collection H B p c st =
       (case final_export_dir H B p c st1 of
          Inl err \<Rightarrow> Inl err
        | Inr (d, st2) \<Rightarrow> Inr (export_selected H c (os_path_join d [gltf_filename c]) st2))" by blast
  from eq assms(1) obtain d st2 where dir: "final_export_dir H B p c st1 = Inr (d, st2)"
    and st': "st' = export_selected H c (os_path_join d [gltf_filename c]) st2"
    by (auto split: sum.splits prod.splits)
  from final_export_dir_Inr [OF dir] st1 have fr: "calls st2 = calls st" "exported_count st2 = exported_count st"
    by simp_all
  have "dir_spec B p c d"
    using final_export_dir_flat [OF dir] final_export_dir_structure [OF dir]
    by (auto simp: dir_spec_def)
  with st' fr show ?thesis
    by (intro exI [where x = "\<lparr>call_collection = c, call_filepath = os_path_join d [gltf_filename c],
          call_selection = selected_objects st2,
          call_result = fst (op_export_gltf H (os_path_join d [gltf_filename c]) (selected_objects st2) (host st2))\<rparr>"]
        exI [where x = d])
       (simp add: export_selected_calls export_selected_count)
qed


lemma hierarchy_ancestor_path:
  assumes "get_collection_hierarchy_path cs c = Some hierarchy"
  shows "ancestor_path cs (name c) (rev hierarchy)"
  using find_parents_path [of cs c "[]" hierarchy] assms
  by (simp add: get_collection_hierarchy_path_def)

lemma export_collection_call:
  assumes "export_collection H B p c st = Inr st'" and "exportable B c"
  shows "\<exists>k. calls st' = calls st @ [k] \<and> call_collection k = c
           \<and> (\<exists>d. call_filepath k = os_path_join d [gltf_filename c])
           \<and> (if use_collection_structure B
                then mirrors_nesting (collections B) p c (call_filepath k)
                else call_filepath k = os_path_join p [gltf_filename c])
           \<and> exported_count st' = exported_count st + length (returned_calls [k])"
proof -
  from export_collection_Inr [OF assms] obtain k d where k: "calls st' = calls st @ [k]"
    "call_collection k = c" "call_filepath k = os_path_join d [gltf_filename c]" "dir_spec B p c d"
    "exported_count st' = exported_count st + (if call_result k = Returned then 1 else 0)" by blast
  have "if use_collection_structure B
                then mirrors_nesting (collections B) p c (call_filepath k)
                else call_filepath k = os_path_join p [gltf_filename c]"
  proof (cases "use_collection_structure B")
    case False
    with k show ?thesis by (simp add: dir_spec_def)
  next
    case True
    with k(4) obtain hierarchy where h: "get_collection_hierarchy_path (collections B) c = Some hierarchy"
      "d = os_path_join p (rev hierarchy)" by (auto simp: dir_spec_def)
    from h(2) k(3) have "call_filepath k = os_path_join p (rev hierarchy @ [gltf_filename c])"
      by (simp add: os_path_join_append)
    with hierarchy_ancestor_path [OF h(1)] True show ?thesis
      by (auto simp: mirrors_nesting_def)
  qed
  with k show ?thesis by (auto simp: returned_calls_def)
qed

lemma export_loop_calls:
  "\<exists>ks. calls (final_state (export_loop H B p cs st)) = calls st @ ks
      \<and> subseq (map call_collection ks) cs
      \<and> (\<forall>k\<in>set ks. call_ok B p k)
      \<and> exported_count (final_state (export_loop H B p cs st)) = exported_count st + length (returned_calls ks)
      \<and> (completed (export_loop H B p cs st) \<longrightarrow> map call_collection ks = filter (exportable B) cs)"
proof (induction cs arbitrary: st)
  case Nil
  then show ?case by (simp add: returned_calls_def)
next
  case (Cons c cs)
  show ?case
  proof (cases "export_collection H B p c st")
    case (Inl a)
    obtain e st1 where a: "a = (e, st1)" by (cases a)
    with Inl export_collection_Inl [of H B p c st e st1]
    have "calls st1 = calls st" "exported_count st1 = exported_count st" by simp_all
    with Inl a show ?thesis by (simp add: returned_calls_def)
  next
    case (Inr st1)
    from Cons.IH [of st1] obtain ks where ks:
      "calls (final_state (export_loop H B p cs st1)) = calls st1 @ ks"
      "subseq (map call_collection ks) cs" "\<forall>k\<in>set ks. call_ok B p k"
      "exported_count (final_state (export_loop H B p cs st1)) = exported_count st1 + length (returned_calls ks)"
      "completed (export_loop H B p cs st1) \<longrightarrow> map call_collection ks = filter (exportable B) cs"
      by blast
    show ?thesis
    proof (cases "exportable B c")
      case False
      from export_collection_skip [OF False, of H p st] Inr
      have "calls st1 = calls st" "exported_count st1 = exported_count st" by simp_all
      with ks Inr False show ?thesis
        by (intro exI [where x = ks]) (auto intro: list_emb_Cons)
    next
      case True
      from export_collection_call [OF Inr True] obtain k where k: "calls st1 = calls st @ [k]"
        "call_collection k = c" "call_ok B p k"
        "exported_count st1 = exported_count st + length (returned_calls [k])"
        using True by (auto simp: call_ok_def)
      with ks Inr True show ?thesis
        by (intro exI [where x = "k # ks"]) (simp add: returned_calls_def)
    qed
  qed
qed


lemma subseq_keeps_distinct:
  assumes "subseq xs ys" and "distinct ys"
  shows "distinct xs"
  using assms
proof (induction rule: list_emb.induct)
  case (list_emb_Nil ys)
  then show ?case by simp
next
  case (list_emb_Cons xs ys y)
  then show ?case by simp
next
  case (list_emb_Cons2 x y xs ys)
  have "set xs \<subseteq> set ys"
  proof
    fix z assume "z \<in> set xs"
    with list_emb_Cons2(2) show "z \<in> set ys" by (auto elim: list_emb_set)
  qed
  with list_emb_Cons2 show ?case by auto
qed

section \<open>Properties of a whole run\<close>

lemma set_foldl_select_set:
  "set (foldl (\<lambda>sel obj. select_set obj sel) acc xs) = set acc \<union> set xs"
  by (induction xs arbitrary: acc) (auto simp: select_set_def)

lemma restore_and_report_frame:
  "calls (final_state (restore_and_report H B p sel act m st)) = calls st
   \<and> exported_count (final_state (restore_and_report H B p sel act m st)) = exported_count st
   \<and> host (final_state (restore_and_report H B p sel act m st)) = host st"
proof (cases "select_objects H B sel (st\<lparr>selected_objects := []\<rparr>)")
  case (Inl a)
  obtain e s0 where "a = (e, s0)" by (cases a)
  with Inl select_objects_frame [of H B sel "st\<lparr>selected_objects := []\<rparr>"]
  show ?thesis by (simp add: restore_and_report_def)
next
  case (Inr s0)
  with select_objects_frame [of H B sel "st\<lparr>selected_objects := []\<rparr>"]
  show ?thesis by (simp add: restore_and_report_def Let_def)
qed

lemma restore_and_report_completed:
  assumes "completed (restore_and_report H B p sel act m st)"
  shows "active_object (final_state (restore_and_report H B p sel act m st)) = act
   \<and> set (selected_objects (final_state (restore_and_report H B p sel act m st)))
       = set sel \<inter> set (scene_objects B)
   \<and> last (console (final_state (restore_and_report H B p sel act m st)))
        = Export_complete (exported_count st) p (use_collection_structure B)"
proof (cases "select_objects H B sel (st\<lparr>selected_objects := []\<rparr>)")
  case (Inl a)
  with assms show ?thesis by (simp add: restore_and_report_def)
next
  case (Inr s0)
  from select_objects_Inr [OF this] Inr show ?thesis
    by (auto simp: restore_and_report_def Let_def set_foldl_select_set)
qed

lemma restore_and_report_total:
  assumes "\<And>obj. obj_select_set H obj"
  shows "completed (restore_and_report H B p sel act m st)"
proof -
  from select_objects_total [OF assms, of B sel "st\<lparr>selected_objects := []\<rparr>"]
  obtain s0 where "select_objects H B sel (st\<lparr>selected_objects := []\<rparr>) = Inr s0"
    by (cases "select_objects H B sel (st\<lparr>selected_objects := []\<rparr>)") auto
  then show ?thesis by (simp add: restore_and_report_def Let_def)
qed

lemma run_unfold:
  "\<exists>st0. calls st0 = [] \<and> exported_count st0 = 0 \<and> host st0 = h \<and>
     export_collections_to_gltf H B ep sel act m h =
       (case export_loop H B (default_export_path H B ep) (collections B) st0 of
          Inl err \<Rightarrow> Inl err
        | Inr st \<Rightarrow> restore_and_report H B (default_export_path H B ep) sel act
                         (if act \<noteq> None then m else ''OBJECT'') st)"
  by (intro exI [where x = "\<lparr>selected_objects = [], active_object = act,
         mode = (if act \<noteq> None \<and> m \<noteq> ''OBJECT'' then ''OBJECT'' else m), host = h, exported_count = 0,
         console = (if act \<noteq> None \<and> m \<noteq> ''OBJECT'' then [Switched_mode (if act \<noteq> None then m else ''OBJECT'')] else []),
         calls = []\<rparr>"])
     (auto simp add: export_collections_to_gltf_def Let_def)

lemma run_calls:
  "\<exists>ks. calls (final_state (export_collections_to_gltf H B ep sel act m h)) = ks
      \<and> subseq (map call_collection ks) (collections B)
      \<and> (\<forall>k\<in>set ks. call_ok B (default_export_path H B ep) k)
      \<and> exported_count (final_state (export_collections_to_gltf H B ep sel act m h)) = length (returned_calls ks)
      \<and> (completed (export_collections_to_gltf H B ep sel act m h) \<longrightarrow>
            map call_collection ks = filter (exportable B) (collections B))"
proof -
  let ?p = "default_export_path H B ep"
  from run_unfold [of h H B ep sel act m] obtain st0 where st0: "calls st0 = []" "exported_count st0 = 0"
    and run: "export_collections_to_gltf H B ep sel act m h =
       (case export_loop H B ?p (collections B) st0 of
          Inl err \<Rightarrow> Inl err
        | Inr st \<Rightarrow> restore_and_report H B ?p sel act (if act \<noteq> None then m else ''OBJECT'') st)"
    by blast
  from export_loop_calls [of H B ?p "collections B" st0] st0 obtain ks where ks:
    "calls (final_state (export_loop H B ?p (collections B) st0)) = ks"
    "subseq (map call_collection ks) (collections B)" "\<forall>k\<in>set ks. call_ok B ?p k"
    "exported_count (final_state (export_loop H B ?p (collections B) st0)) = length (returned_calls ks)"
    "completed (export_loop H B ?p (collections B) st0) \<longrightarrow> map call_collection ks = filter (exportable B) (collections B)"
    by auto
  show ?thesis
  proof (cases "export_loop H B ?p (collections B) st0")
    case (Inl a)
    with run ks show ?thesis by (cases a) auto
  next
    case (Inr st)
    with run ks show ?thesis by (simp add: restore_and_report_frame)
  qed
qed

lemma final_export_dir_host:
  assumes "file_effects H h (host st)"
  shows "case final_export_dir H B p c st of
           Inl (e, st') \<Rightarrow> file_effects H h (host st')
         | Inr (d, st') \<Rightarrow> file_effects H h (host st')"
proof (cases "use_collection_structure B")
  case False
  with assms show ?thesis by (simp add: final_export_dir_def)
next
  case True
  show ?thesis
  proof (cases "get_collection_hierarchy_path (collections B) c")
    case None
    with True assms show ?thesis by (simp add: final_export_dir_def)
  next
    case (Some hierarchy)
    show ?thesis
    proof (cases "rev hierarchy")
      case Nil
      with True Some assms show ?thesis by (simp add: final_export_dir_def)
    next
      case (Cons r rs)
      let ?path = "os_path_join p [os_path_join r rs]"
      obtain ok h1 where mk: "os_makedirs H ?path (host st) = (ok, h1)"
        by (cases "os_makedirs H ?path (host st)")
      from assms have "file_effects H h (snd (os_makedirs H ?path (host st)))"
        by (rule file_effects.makedirs)
      with mk have "file_effects H h h1" by simp
      with True Some Cons mk show ?thesis
        by (cases ok) (simp_all add: final_export_dir_def Let_def)
    qed
  qed
qed

lemma export_selected_host:
  "host (export_selected H c path st) = snd (op_export_gltf H path (selected_objects st) (host st))"
  by (simp add: export_selected_def split: prod.splits op_result.splits)

lemma export_collection_host:
  assumes "file_effects H h (host st)"
  shows "file_effects H h (host (final_state (export_collection H B p c st)))"
proof (cases "exportable B c")
  case False
  from export_collection_skip [OF this, of H p st] assms show ?thesis by auto
next
  case True
  show ?thesis
  proof (cases "select_objects H B (objects c) (st\<lparr>selected_objects := []\<rparr>)")
    case (Inl a)
    obtain e1 s1 where "a = (e1, s1)" by (cases a)
    with export_collection_select_Inl [OF True, of H st e1 s1 p] Inl assms
    show ?thesis by simp
  next
    case (Inr s1)
    from export_collection_select_Inr [OF True Inr, of p] obtain st1 where
      st1: "host st1 = host st" and
      eq: "export_collection H B p c st =
         (case final_export_dir H B p c st1 of
            Inl err \<Rightarrow> Inl err
          | Inr (d, st2) \<Rightarrow> Inr (export_selected H c (os_path_join d [gltf_filename c]) st2))" by blast
    from assms st1 have "file_effects H h (host st1)" by simp
    from final_export_dir_host [OF this, of B p c] eq show ?thesis
      by (auto split: sum.splits prod.splits simp: export_selected_host intro: file_effects.export)
  qed
qed

lemma export_loop_host:
  assumes "file_effects H h (host st)"
  shows "file_effects H h (host (final_state (export_loop H B p cs st)))"
  using assms
proof (induction cs arbitrary: st)
  case Nil
  then show ?case by simp
next
  case (Cons c cs)
  from export_collection_host [OF Cons.prems, of B p c]
  have step: "file_effects H h (host (final_state (export_collection H B p c st)))" .
  show ?case
  proof (cases "export_collection H B p c st")
    case (Inl a)
    with step show ?thesis by simp
  next
    case (Inr st1)
    with step have "file_effects H h (host st1)" by simp
    from Cons.IH [OF this] Inr show ?thesis by simp
  qed
qed

lemma run_host:
  "file_effects H h (host (final_state (export_collections_to_gltf H B ep sel act m h)))"
proof -
  let ?p = "default_export_path H B ep"
  from run_unfold [of h H B ep sel act m] obtain st0 where st0: "host st0 = h"
    and run: "export_collections_to_gltf H B ep sel act m h =
       (case export_loop H B ?p (collections B) st0 of
          Inl err \<Rightarrow> Inl err
        | Inr st \<Rightarrow> restore_and_report H B ?p sel act (if act \<noteq> None then m else ''OBJECT'') st)"
    by blast
  from st0 have "file_effects H h (host st0)" by (simp add: file_effects.none)
  from export_loop_host [OF this, of B ?p "collections B"] run show ?thesis
    by (cases "export_loop H B ?p (collections B) st0") (auto simp: restore_and_report_frame)
qed

section \<open>Toggling a flag, and the end of the parent walk\<close>

lemma update_named_index:
  "n \<in> set (map name cs) \<Longrightarrow>
   \<exists>i<length cs. name (cs ! i) = n \<and> (\<forall>j<i. name (cs ! j) \<noteq> n)
      \<and> find (\<lambda>c. name c = n) cs = Some (cs ! i)
      \<and> update_named n f cs = cs[i := f (cs ! i)]"
proof (induction cs)
  case Nil
  then show ?case by simp
next
  case (Cons c cs)
  show ?case
  proof (cases "name c = n")
    case True
    then have "name ((c # cs) ! 0) = n \<and> (\<forall>j<0. name ((c # cs) ! j) \<noteq> n)
      \<and> find (\<lambda>c. name c = n) (c # cs) = Some ((c # cs) ! 0)
      \<and> update_named n f (c # cs) = (c # cs)[0 := f ((c # cs) ! 0)]"
      by simp
    then show ?thesis by blast
  next
    case False
    with Cons.prems have "n \<in> set (map name cs)" by auto
    from Cons.IH [OF this] obtain i where i: "i < length cs" "name (cs ! i) = n"
      "\<forall>j<i. name (cs ! j) \<noteq> n" "find (\<lambda>c. name c = n) cs = Some (cs ! i)"
      "update_named n f cs = cs[i := f (cs ! i)]" by blast
    have "\<forall>j<Suc i. name ((c # cs) ! j) \<noteq> n"
    proof (intro allI impI)
      fix j assume "j < Suc i"
      then show "name ((c # cs) ! j) \<noteq> n"
        using False i(3) by (cases j) auto
    qed
    with i False have "Suc i < length (c # cs) \<and> name ((c # cs) ! Suc i) = n
      \<and> (\<forall>j<Suc i. name ((c # cs) ! j) \<noteq> n)
      \<and> find (\<lambda>c. name c = n) (c # cs) = Some ((c # cs) ! Suc i)
      \<and> update_named n f (c # cs) = (c # cs)[Suc i := f ((c # cs) ! Suc i)]"
      by simp
    then show ?thesis by blast
  qed
qed

lemma nested_scene_child_rel:
  "(a, b) \<in> child_rel (collections nested_scene) \<longleftrightarrow>
     (a = ''Level'' \<and> b = ''Props'') \<or> (a = ''Props'' \<and> b = ''Crates'')"
  by (auto simp: child_rel_def is_child_of_def nested_scene_def level_def props_def crates_def drafts_def)

lemma nested_scene_acyclic: "acyclic (child_rel (collections nested_scene))"
proof (rule acyclicI_order [where f = "\<lambda>n. if n = ''Level'' then 2 else if n = ''Props'' then 1 else (0::nat)"])
  fix a b :: string
  assume "(a, b) \<in> child_rel (collections nested_scene)"
  then show "(if b = ''Level'' then 2 else if b = ''Props'' then 1 else (0::nat))
           < (if a = ''Level'' then 2 else if a = ''Props'' then 1 else 0)"
    by (auto simp: nested_scene_child_rel)
qed

lemma not_export_enabled_cases:
  "(\<not> export_enabled c) =
     (case export_gltf c of
        None \<Rightarrow> True
      | Some (PBool b) \<Rightarrow> \<not> b
      | Some (PInt n) \<Rightarrow> n = 0
      | Some (PStr s) \<Rightarrow> s = [])"
  by (simp add: export_enabled_def split: option.splits prop_value.splits)

text \<open>
  C6. For a name present in \<^verbatim>\<open>bpy.data.collections\<close>, the toggle operator changes the
  collections at one position only, the first one with that name. There the property
  \<^verbatim>\<open>export_gltf\<close> becomes the negation of the value stored before: \<open>True\<close> when the property
  was absent, \<open>False\<close>, zero or the empty string, and \<open>False\<close> when it was \<open>True\<close>, a
  non-zero number or a non-empty string. Every other collection, and every other field, is
  unchanged.
\<close>

theorem toggle_inverts_one_flag:
  assumes "collection_name \<in> set (map name cs)"
  shows "\<exists>i<length cs. name (cs ! i) = collection_name
           \<and> (\<forall>j<i. name (cs ! j) \<noteq> collection_name)
           \<and> fst (toggle_collection_execute collection_name cs)
               = cs[i := (cs ! i)\<lparr>export_gltf := Some (PBool
                    (case export_gltf (cs ! i) of
                       None \<Rightarrow> True
                     | Some (PBool b) \<Rightarrow> \<not> b
                     | Some (PInt n) \<Rightarrow> n = 0
                     | Some (PStr s) \<Rightarrow> s = []))\<rparr>]"
proof -
  let ?f = "\<lambda>c. c\<lparr>export_gltf := Some (PBool (\<not> export_enabled
                (the (find (\<lambda>c. name c = collection_name) cs))))\<rparr>"
  from update_named_index [OF assms, where f = ?f] obtain i where
    i: "i < length cs" "name (cs ! i) = collection_name"
      "\<forall>j<i. name (cs ! j) \<noteq> collection_name"
      "find (\<lambda>c. name c = collection_name) cs = Some (cs ! i)"
    and upd: "update_named collection_name ?f cs = cs[i := ?f (cs ! i)]"
    by blast
  have "fst (toggle_collection_execute collection_name cs)
      = cs[i := (cs ! i)\<lparr>export_gltf := Some (PBool (\<not> export_enabled (cs ! i)))\<rparr>]"
    using i(4) upd by (simp add: toggle_collection_execute_def Let_def)
  then have "fst (toggle_collection_execute collection_name cs)
      = cs[i := (cs ! i)\<lparr>export_gltf := Some (PBool
                    (case export_gltf (cs ! i) of
                       None \<Rightarrow> True
                     | Some (PBool b) \<Rightarrow> \<not> b
                     | Some (PInt n) \<Rightarrow> n = 0
                     | Some (PStr s) \<Rightarrow> s = []))\<rparr>]"
    by (simp only: not_export_enabled_cases)
  with i show ?thesis by blast
qed

theorem toggle_inverts_one_flag_witness:
  "''Level'' \<in> set (map name [level, drafts])
   \<and> (\<exists>i<length [level, drafts]. name ([level, drafts] ! i) = ''Level''
           \<and> (\<forall>j<i. name ([level, drafts] ! j) \<noteq> ''Level'')
           \<and> fst (toggle_collection_execute ''Level'' [level, drafts])
               = [level, drafts][i := ([level, drafts] ! i)\<lparr>export_gltf := Some (PBool
                    (case export_gltf ([level, drafts] ! i) of
                       None \<Rightarrow> True
                     | Some (PBool b) \<Rightarrow> \<not> b
                     | Some (PInt n) \<Rightarrow> n = 0
                     | Some (PStr s) \<Rightarrow> s = []))\<rparr>])
   \<and> export_gltf level = Some (PBool True)
   \<and> fst (toggle_collection_execute ''Level'' [level, drafts])
        = [level\<lparr>export_gltf := Some (PBool False)\<rparr>, drafts]
   \<and> export_gltf drafts = None
   \<and> fst (toggle_collection_execute ''Drafts'' [level, drafts])
        = [level, drafts\<lparr>export_gltf := Some (PBool True)\<rparr>]
   \<and> fst (toggle_collection_execute ''Drafts''
          (fst (toggle_collection_execute ''Drafts'' [level, drafts])))
        = [level, drafts\<lparr>export_gltf := Some (PBool False)\<rparr>]"
proof -
  have h: "''Level'' \<in> set (map name [level, drafts])"
    by (simp add: level_def drafts_def)
  have v: "export_gltf level = Some (PBool True)"
    "fst (toggle_collection_execute ''Level'' [level, drafts])
        = [level\<lparr>export_gltf := Some (PBool False)\<rparr>, drafts]"
    "export_gltf drafts = None"
    "fst (toggle_collection_execute ''Drafts'' [level, drafts])
        = [level, drafts\<lparr>export_gltf := Some (PBool True)\<rparr>]"
    "fst (toggle_collection_execute ''Drafts''
          (fst (toggle_collection_execute ''Drafts'' [level, drafts])))
        = [level, drafts\<lparr>export_gltf := Some (PBool False)\<rparr>]"
    by (simp_all add: toggle_collection_execute_def level_def drafts_def export_enabled_def)
  from h toggle_inverts_one_flag [OF h] v show ?thesis by blast
qed



section \<open>Runs that return, and the export flag\<close>

lemma completed_final_state: "completed r \<Longrightarrow> r = Inr (final_state r)"
  by (cases r) auto

lemma call_ok_enabled: "call_ok B p k \<Longrightarrow> export_enabled (call_collection k)"
  by (simp add: call_ok_def exportable_def)

lemma export_collection_completes:
  assumes mk: "\<And>path h. fst (os_makedirs H path h)"
    and walk: "use_collection_structure B \<longrightarrow> acyclic (child_rel (collections B))"
    and sel: "\<And>obj. obj_select_set H obj"
  shows "\<exists>st'. export_collection H B p c st = Inr st'"
proof (cases "exportable B c")
  case False
  from export_collection_skip [OF this, of H p st] show ?thesis by blast
next
  case True
  from select_objects_total [OF sel, of B "objects c" "st\<lparr>selected_objects := []\<rparr>"]
  obtain s1 where s1: "select_objects H B (objects c) (st\<lparr>selected_objects := []\<rparr>) = Inr s1"
    by (cases "select_objects H B (objects c) (st\<lparr>selected_objects := []\<rparr>)") auto
  from export_collection_select_Inr [OF True s1, of p] obtain st1 where
    eq: "export_collection H B p c st =
       (case final_export_dir H B p c st1 of
          Inl err \<Rightarrow> Inl err
        | Inr (d, st2) \<Rightarrow> Inr (export_selected H c (os_path_join d [gltf_filename c]) st2))" by blast
  have "use_collection_structure B \<Longrightarrow> \<exists>r. get_collection_hierarchy_path (collections B) c = Some r"
    using walk find_parents_returns [of "collections B" c "[]"]
    by (simp add: get_collection_hierarchy_path_def)
  with mk have "\<exists>d st2. final_export_dir H B p c st1 = Inr (d, st2)"
    by (rule final_export_dir_total)
  with eq show ?thesis by auto
qed

lemma export_loop_completes:
  assumes mk: "\<And>path h. fst (os_makedirs H path h)"
    and walk: "use_collection_structure B \<longrightarrow> acyclic (child_rel (collections B))"
    and sel: "\<And>obj. obj_select_set H obj"
  shows "completed (export_loop H B p cs st)"
proof (induction cs arbitrary: st)
  case Nil
  show ?case by simp
next
  case (Cons c cs)
  from export_collection_completes [OF mk walk sel, of p c st] obtain st1 where
    "export_collection H B p c st = Inr st1" by blast
  with Cons.IH [of st1] show ?case by simp
qed

lemma run_completes:
  assumes mk: "\<And>path h. fst (os_makedirs H path h)"
    and walk: "use_collection_structure B \<longrightarrow> acyclic (child_rel (collections B))"
    and sel: "\<And>obj. obj_select_set H obj"
  shows "completed (export_collections_to_gltf H B ep sel0 act m h)"
proof -
  let ?p = "default_export_path H B ep"
  from run_unfold [of h H B ep sel0 act m] obtain st0 where
    run: "export_collections_to_gltf H B ep sel0 act m h =
       (case export_loop H B ?p (collections B) st0 of
          Inl err \<Rightarrow> Inl err
        | Inr st \<Rightarrow> restore_and_report H B ?p sel0 act (if act \<noteq> None then m else ''OBJECT'') st)"
    by blast
  from export_loop_completes [OF mk walk sel, of ?p "collections B" st0] run
    restore_and_report_total [OF sel]
  show ?thesis
    by (cases "export_loop H B ?p (collections B) st0") auto
qed

lemma run_restored:
  assumes "completed (export_collections_to_gltf H B ep sel act m h)"
  shows "set (selected_objects (final_state (export_collections_to_gltf H B ep sel act m h)))
            = set sel \<inter> set (scene_objects B)
       \<and> active_object (final_state (export_collections_to_gltf H B ep sel act m h)) = act
       \<and> last (console (final_state (export_collections_to_gltf H B ep sel act m h)))
            = Export_complete (exported_count (final_state (export_collections_to_gltf H B ep sel act m h)))
                (default_export_path H B ep) (use_collection_structure B)"
proof -
  let ?p = "default_export_path H B ep"
  let ?m = "if act \<noteq> None then m else ''OBJECT''"
  from run_unfold [of h H B ep sel act m] obtain st0 where
    run: "export_collections_to_gltf H B ep sel act m h =
       (case export_loop H B ?p (collections B) st0 of
          Inl err \<Rightarrow> Inl err
        | Inr st \<Rightarrow> restore_and_report H B ?p sel act ?m st)"
    by blast
  show ?thesis
  proof (cases "export_loop H B ?p (collections B) st0")
    case (Inl a)
    with run assms show ?thesis by simp
  next
    case (Inr st)
    with run have eq: "export_collections_to_gltf H B ep sel act m h = restore_and_report H B ?p sel act ?m st"
      by simp
    with assms have "completed (restore_and_report H B ?p sel act ?m st)" by simp
    from restore_and_report_completed [OF this] restore_and_report_frame [of H B ?p sel act ?m st] eq
    show ?thesis by simp
  qed
qed

text \<open>
  C2. A collection whose property \<^verbatim>\<open>export_gltf\<close> is absent or \<open>False\<close> is the collection
  of no invocation of the export operator, in any run, whether the run returns or raises.
\<close>

theorem unflagged_collection_never_exported:
  assumes "export_gltf c = None \<or> export_gltf c = Some (PBool False)"
  shows "c \<notin> call_collection ` set (calls (final_state
           (export_collections_to_gltf H B export_path selection active current_mode h)))"
proof
  let ?r = "export_collections_to_gltf H B export_path selection active current_mode h"
  assume "c \<in> call_collection ` set (calls (final_state ?r))"
  then obtain k where k: "k \<in> set (calls (final_state ?r))" "call_collection k = c" by auto
  from run_calls [of H B export_path selection active current_mode h] k(1)
  have "call_ok B (default_export_path H B export_path) k" by auto
  with k(2) have "export_enabled c" by (auto dest: call_ok_enabled)
  with assms show False by (auto simp: export_enabled_def)
qed

theorem unflagged_collection_never_exported_witness:
  "(export_gltf drafts = None \<or> export_gltf drafts = Some (PBool False))
   \<and> drafts \<in> set (collections nested_scene)
   \<and> drafts \<notin> call_collection ` set (calls (final_state
        (export_collections_to_gltf log_host nested_scene (Some ''/out'') [''Lamp''] (Some ''Lamp'') ''EDIT'' [])))"
proof -
  have h: "export_gltf drafts = None \<or> export_gltf drafts = Some (PBool False)"
    by (simp add: drafts_def)
  have m: "drafts \<in> set (collections nested_scene)" by (simp add: nested_scene_def)
  from h m unflagged_collection_never_exported
    [OF h, of log_host nested_scene "Some ''/out''" "[''Lamp'']" "Some ''Lamp''" "''EDIT''" "[]"]
  show ?thesis by simp
qed

section \<open>Which collections are exported, and in what order\<close>

text \<open>
  C1, as amended. In a run that returns, the export operator is invoked for exactly the
  collections whose flag holds and that have at least one object in the current scene,
  once each and in iteration order; each invocation gets a file path whose last component
  is the collection's filtered name with the extension \<^verbatim>\<open>.gltf\<close>.
\<close>

theorem exported_collections_are_the_exportable:
  assumes "completed (export_collections_to_gltf H B export_path selection active current_mode h)"
  shows "map call_collection (calls (final_state
             (export_collections_to_gltf H B export_path selection active current_mode h)))
           = filter (exportable B) (collections B)
       \<and> (\<forall>k \<in> set (calls (final_state
             (export_collections_to_gltf H B export_path selection active current_mode h))).
             \<exists>d. call_filepath k = os_path_join d [gltf_filename (call_collection k)])"
  using run_calls [of H B export_path selection active current_mode h] assms
  by (auto simp: call_ok_def)

theorem exported_collections_are_the_exportable_witness:
  "completed (export_collections_to_gltf log_host nested_scene (Some ''/out'') [''Lamp''] (Some ''Lamp'') ''EDIT'' [])
   \<and> map call_collection (calls (final_state
         (export_collections_to_gltf log_host nested_scene (Some ''/out'') [''Lamp''] (Some ''Lamp'') ''EDIT'' [])))
       = filter (exportable nested_scene) (collections nested_scene)
   \<and> filter (exportable nested_scene) (collections nested_scene) = [level, props, crates]"
proof -
  have c: "completed (export_collections_to_gltf log_host nested_scene (Some ''/out'') [''Lamp''] (Some ''Lamp'') ''EDIT'' [])"
    by code_simp
  have v: "filter (exportable nested_scene) (collections nested_scene) = [level, props, crates]"
    by code_simp
  from c v exported_collections_are_the_exportable [OF c] show ?thesis by simp
qed

text \<open>
  C1, as stated, fails: the collection \<^verbatim>\<open>Backdrop\<close> has the flag \<open>True\<close> and holds an
  object, but the object is not in the current scene; the run returns and the export
  operator is never invoked (line 309 skips the collection).
\<close>

theorem flagged_nonempty_collection_skipped:
  "export_gltf backdrop = Some (PBool True) \<and> objects backdrop \<noteq> []
   \<and> backdrop \<in> set (collections other_scene)
   \<and> completed (export_collections_to_gltf log_host other_scene (Some ''/out'') [] None ''OBJECT'' [])
   \<and> calls (final_state
        (export_collections_to_gltf log_host other_scene (Some ''/out'') [] None ''OBJECT'' [])) = []"
  by code_simp

text \<open>
  C5. In any run, the collections of the invocations, in the order of the invocations,
  form a subsequence of \<^verbatim>\<open>bpy.data.collections\<close> in iteration order: each position of the
  iteration gives at most one invocation, and later positions give later invocations.
  With distinct collection names, no name occurs in two invocations, so a collection whose
  export raised is not tried again.
\<close>

theorem export_invoked_at_most_once_in_order:
  "subseq (map call_collection (calls (final_state
       (export_collections_to_gltf H B export_path selection active current_mode h))))
     (collections B)
   \<and> (distinct (map name (collections B)) \<longrightarrow>
        distinct (map (\<lambda>k. name (call_collection k)) (calls (final_state
          (export_collections_to_gltf H B export_path selection active current_mode h)))))"
proof -
  let ?ks = "calls (final_state (export_collections_to_gltf H B export_path selection active current_mode h))"
  from run_calls [of H B export_path selection active current_mode h]
  have sub: "subseq (map call_collection ?ks) (collections B)" by auto
  then have "subseq (map name (map call_collection ?ks)) (map name (collections B))"
    by (rule subseq_map)
  then have "distinct (map name (collections B)) \<Longrightarrow> distinct (map name (map call_collection ?ks))"
    by (rule subseq_keeps_distinct)
  with sub show ?thesis by (simp add: comp_def)
qed

theorem export_invoked_at_most_once_in_order_witness:
  "distinct (map name (collections nested_scene))
   \<and> subseq (map call_collection (calls (final_state
         (export_collections_to_gltf log_host nested_scene (Some ''/out'') [''Lamp''] (Some ''Lamp'') ''EDIT'' []))))
       (collections nested_scene)
   \<and> distinct (map (\<lambda>k. name (call_collection k)) (calls (final_state
         (export_collections_to_gltf log_host nested_scene (Some ''/out'') [''Lamp''] (Some ''Lamp'') ''EDIT'' []))))
   \<and> map (\<lambda>k. (name (call_collection k), call_result k)) (calls (final_state
         (export_collections_to_gltf log_host nested_scene (Some ''/out'') [''Lamp''] (Some ''Lamp'') ''EDIT'' [])))
       = [(''Level'', Returned), (''Props'', Raised ''disk full''), (''Crates'', Returned)]"
proof -
  have d: "distinct (map name (collections nested_scene))" by code_simp
  have v: "map (\<lambda>k. (name (call_collection k), call_result k)) (calls (final_state
         (export_collections_to_gltf log_host nested_scene (Some ''/out'') [''Lamp''] (Some ''Lamp'') ''EDIT'' [])))
       = [(''Level'', Returned), (''Props'', Raised ''disk full''), (''Crates'', Returned)]"
    by code_simp
  from d v export_invoked_at_most_once_in_order
    [of log_host nested_scene "Some ''/out''" "[''Lamp'']" "Some ''Lamp''" "''EDIT''" "[]"]
  show ?thesis by simp
qed

section \<open>Folders and files\<close>



lemma file_effects_invariant:
  assumes "file_effects H h h'"
    and "\<And>path x. I x \<Longrightarrow> I (snd (os_makedirs H path x))"
    and "\<And>path sel x. I x \<Longrightarrow> I (snd (op_export_gltf H path sel x))"
    and "I h"
  shows "I h'"
  using assms by (induction rule: file_effects.induct) auto

text \<open>
  C7. Whatever a run does to the host's file state, it does through \<^verbatim>\<open>os.makedirs\<close> and
  through the export operator: the file state at the end of a run, returned or raised,
  comes from the initial one by calls of these two and by nothing else. So a property of
  the files that both calls keep (\<open>file_effects_invariant\<close>) holds after the run.
\<close>

theorem run_file_effects:
  "file_effects H h (host (final_state
     (export_collections_to_gltf H B export_path selection active current_mode h)))"
  by (rule run_host)

theorem run_file_effects_witness:
  "file_effects log_host [] (host (final_state
     (export_collections_to_gltf log_host nested_scene (Some ''/out'') [''Lamp''] (Some ''Lamp'') ''EDIT'' [])))
   \<and> host (final_state
     (export_collections_to_gltf log_host nested_scene (Some ''/out'') [''Lamp''] (Some ''Lamp'') ''EDIT'' []))
     = [''gltf /out/Level.gltf'', ''mkdir /out/Level'', ''gltf /out/Level/Props.gltf'',
        ''mkdir /out/Level/Props'', ''gltf /out/Level/Props/Crates.gltf'']"
proof -
  have v: "host (final_state
     (export_collections_to_gltf log_host nested_scene (Some ''/out'') [''Lamp''] (Some ''Lamp'') ''EDIT'' []))
     = [''gltf /out/Level.gltf'', ''mkdir /out/Level'', ''gltf /out/Level/Props.gltf'',
        ''mkdir /out/Level/Props'', ''gltf /out/Level/Props/Crates.gltf'']"
    by code_simp
  from v run_file_effects
    [of log_host "[]" nested_scene "Some ''/out''" "[''Lamp'']" "Some ''Lamp''" "''EDIT''"]
  show ?thesis by simp
qed

section \<open>Failures of the export operator, the selection, and file names\<close>

text \<open>
  C8, as amended. Let no other call raise: \<^verbatim>\<open>os.makedirs\<close> succeeds, every \<^verbatim>\<open>select_set\<close>
  returns, and with \<^verbatim>\<open>use_collection_structure\<close> the hierarchy has no cycle, so that the
  parent walk returns. Then, whatever the export operator does on each invocation,
  return or raise, the run returns: the operator has been invoked for every exportable
  collection, the counter equals the number of invocations that returned, and the last
  line printed is the final report with that count.
\<close>

theorem exporter_failure_contained:
  assumes "\<And>path x. fst (os_makedirs H path x)"
    and "use_collection_structure B \<longrightarrow> acyclic (child_rel (collections B))"
    and "\<And>obj. obj_select_set H obj"
  shows "\<exists>st. export_collections_to_gltf H B export_path selection active current_mode h = Inr st
           \<and> map call_collection (calls st) = filter (exportable B) (collections B)
           \<and> exported_count st = length (returned_calls (calls st))
           \<and> last (console st) = Export_complete (length (returned_calls (calls st)))
                (default_export_path H B export_path) (use_collection_structure B)"
proof -
  let ?r = "export_collections_to_gltf H B export_path selection active current_mode h"
  from assms have c: "completed ?r" by (rule run_completes)
  then have r: "?r = Inr (final_state ?r)" by (rule completed_final_state)
  from run_calls [of H B export_path selection active current_mode h] c
  have "map call_collection (calls (final_state ?r)) = filter (exportable B) (collections B)"
    and n: "exported_count (final_state ?r) = length (returned_calls (calls (final_state ?r)))"
    by auto
  moreover from run_restored [OF c] n
  have "last (console (final_state ?r)) = Export_complete (length (returned_calls (calls (final_state ?r))))
                (default_export_path H B export_path) (use_collection_structure B)"
    by simp
  ultimately show ?thesis using r by blast
qed

theorem exporter_failure_contained_witness:
  "(\<forall>path x. fst (os_makedirs log_host path x))
   \<and> use_collection_structure nested_scene
   \<and> acyclic (child_rel (collections nested_scene))
   \<and> (\<forall>obj. obj_select_set log_host obj)
   \<and> (\<exists>st. export_collections_to_gltf log_host nested_scene (Some ''/out'') [''Lamp''] (Some ''Lamp'') ''EDIT'' [] = Inr st
           \<and> map call_collection (calls st) = filter (exportable nested_scene) (collections nested_scene)
           \<and> exported_count st = length (returned_calls (calls st))
           \<and> last (console st) = Export_complete (length (returned_calls (calls st)))
                (default_export_path log_host nested_scene (Some ''/out'')) (use_collection_structure nested_scene))
   \<and> map (\<lambda>k. (name (call_collection k), call_result k)) (calls (final_state
         (export_collections_to_gltf log_host nested_scene (Some ''/out'') [''Lamp''] (Some ''Lamp'') ''EDIT'' [])))
       = [(''Level'', Returned), (''Props'', Raised ''disk full''), (''Crates'', Returned)]
   \<and> exported_count (final_state
         (export_collections_to_gltf log_host nested_scene (Some ''/out'') [''Lamp''] (Some ''Lamp'') ''EDIT'' [])) = 2
   \<and> last (console (final_state
         (export_collections_to_gltf log_host nested_scene (Some ''/out'') [''Lamp''] (Some ''Lamp'') ''EDIT'' [])))
       = Export_complete 2 ''/out'' True"
proof -
  have mk: "fst (os_makedirs log_host path x)" for path x
    by (simp add: log_host_def)
  have sl: "obj_select_set log_host obj" for obj
    by (simp add: log_host_def)
  have ac: "use_collection_structure nested_scene \<longrightarrow> acyclic (child_rel (collections nested_scene))"
    by (simp add: nested_scene_acyclic)
  have u: "use_collection_structure nested_scene" by (simp add: nested_scene_def)
  have v: "map (\<lambda>k. (name (call_collection k), call_result k)) (calls (final_state
         (export_collections_to_gltf log_host nested_scene (Some ''/out'') [''Lamp''] (Some ''Lamp'') ''EDIT'' [])))
       = [(''Level'', Returned), (''Props'', Raised ''disk full''), (''Crates'', Returned)]"
    "exported_count (final_state
         (export_collections_to_gltf log_host nested_scene (Some ''/out'') [''Lamp''] (Some ''Lamp'') ''EDIT'' [])) = 2"
    "last (console (final_state
         (export_collections_to_gltf log_host nested_scene (Some ''/out'') [''Lamp''] (Some ''Lamp'') ''EDIT'' [])))
       = Export_complete 2 ''/out'' True"
    by code_simp+
  from mk sl u nested_scene_acyclic v exporter_failure_contained
    [OF mk ac sl, of "Some ''/out''" "[''Lamp'']" "Some ''Lamp''" "''EDIT''" "[]"]
  show ?thesis by blast
qed

text \<open>
  C8, as stated, fails: on a host where no directory can be created, the export operator
  raises for \<^verbatim>\<open>Level\<close> and the exception is caught, but the run then ends with the
  \<^verbatim>\<open>OSError\<close> of \<^verbatim>\<open>os.makedirs\<close> for the folder of \<^verbatim>\<open>Props\<close> (line 330 stands outside
  the \<^verbatim>\<open>try\<close>): the exportable collection \<^verbatim>\<open>Crates\<close> is never exported and the final
  report is not reached.
\<close>

theorem exporter_failure_then_makedirs_aborts:
  "map (\<lambda>k. (name (call_collection k), call_result k)) (calls (final_state
        (export_collections_to_gltf readonly_host nested_scene (Some ''/out'') [''Lamp''] (Some ''Lamp'') ''EDIT'' [])))
     = [(''Level'', Raised ''disk full'')]
   \<and> exportable nested_scene crates
   \<and> crates \<in> set (collections nested_scene)
   \<and> raised (export_collections_to_gltf readonly_host nested_scene (Some ''/out'') [''Lamp''] (Some ''Lamp'') ''EDIT'' [])
     = Some (OSError ''/out/Level'')
   \<and> console (final_state
        (export_collections_to_gltf readonly_host nested_scene (Some ''/out'') [''Lamp''] (Some ''Lamp'') ''EDIT'' []))
     = [Switched_mode ''EDIT'', Failed ''Level'' ''disk full'']"
  by code_simp

text \<open>
  C9. When a run returns, the selected objects are those that were selected before it and
  are in the current scene, and the active object is the one that was active before it;
  when the selection lay in the scene, as the host has it, the selection is the same set
  as before.
\<close>

theorem selection_restored:
  assumes "completed (export_collections_to_gltf H B export_path selection active current_mode h)"
  shows "set (selected_objects (final_state
             (export_collections_to_gltf H B export_path selection active current_mode h)))
           = set selection \<inter> set (scene_objects B)
       \<and> active_object (final_state
             (export_collections_to_gltf H B export_path selection active current_mode h)) = active
       \<and> (set selection \<subseteq> set (scene_objects B) \<longrightarrow>
            set (selected_objects (final_state
               (export_collections_to_gltf H B export_path selection active current_mode h)))
             = set selection)"
  using run_restored [OF assms] by auto

theorem selection_restored_witness:
  "completed (export_collections_to_gltf log_host nested_scene (Some ''/out'') [''Lamp'', ''Crate''] (Some ''Lamp'') ''EDIT'' [])
   \<and> set [''Lamp'', ''Crate''] \<subseteq> set (scene_objects nested_scene)
   \<and> set (selected_objects (final_state
         (export_collections_to_gltf log_host nested_scene (Some ''/out'') [''Lamp'', ''Crate''] (Some ''Lamp'') ''EDIT'' [])))
       = set [''Lamp'', ''Crate'']
   \<and> active_object (final_state
         (export_collections_to_gltf log_host nested_scene (Some ''/out'') [''Lamp'', ''Crate''] (Some ''Lamp'') ''EDIT'' []))
       = Some ''Lamp''"
proof -
  have c: "completed (export_collections_to_gltf log_host nested_scene (Some ''/out'') [''Lamp'', ''Crate''] (Some ''Lamp'') ''EDIT'' [])"
    by code_simp
  have s: "set [''Lamp'', ''Crate''] \<subseteq> set (scene_objects nested_scene)"
    by (simp add: nested_scene_def)
  from c s selection_restored [OF c] show ?thesis by blast
qed

text \<open>
  C3 fails on the code. The collections \<^verbatim>\<open>Props.001\<close> and \<^verbatim>\<open>Props001\<close> are distinct, flagged
  and hold objects of the scene; the file name keeps letters, digits, space, hyphen and
  underscore only, so both get \<^verbatim>\<open>Props001.gltf\<close>, and the export operator is invoked twice
  on the same path.
\<close>

theorem sanitised_names_collide:
  "name props_dot \<noteq> name props_plain
   \<and> completed (export_collections_to_gltf log_host twin_scene (Some ''/out'') [] None ''OBJECT'' [])
   \<and> map (\<lambda>k. (name (call_collection k), call_filepath k)) (calls (final_state
        (export_collections_to_gltf log_host twin_scene (Some ''/out'') [] None ''OBJECT'' [])))
     = [(''Props.001'', ''/out/Props001.gltf''), (''Props001'', ''/out/Props001.gltf'')]"
  by code_simp

end
